theory Spec2Isabelle
  imports Complex_Main
begin

section \<open>Data model of the analyzer\<close>

text \<open>
  The Go package \<open>mcla\<close> scores a parsed Java error against a cached list of error
  descriptions. Scores are \<open>float32\<close> in the source; they are modelled by exact rationals,
  so the decimal constants \<open>0.1\<close>, \<open>0.05\<close>, \<open>0.9\<close> and \<open>10.0 / 100\<close> stand for themselves and
  the rounding of the machine arithmetic is not part of the model.
\<close>

datatype error = GoError string

text \<open>\<open>ErrorDesc\<close>: the error key and the message template (empty means: ignore the message).\<close>

record 'm ErrorDesc =
  Error :: string
  Message :: "'m list"

text \<open>\<open>JavaError\<close>: class name, message and the owned cause chain (\<open>CausedBy\<close> may be nil).\<close>

datatype JavaError = JavaError (Class: string) (JMessage: string) (CausedBy: "JavaError option")

record 'm SolutionPossibility =
  ErrorDesc :: "'m ErrorDesc"
  Match :: rat

record 'm ErrorResult =
  Error_of :: JavaError
  Matched :: "'m SolutionPossibility list option"
  File :: string

text \<open>
  \<open>time.Time\<close> is an instant counted in nanoseconds from the zero time, so that
  \<open>IsZero\<close> is equality with \<open>0\<close>; \<open>time.Hour\<close> is a duration in nanoseconds.
\<close>

type_synonym Time = int

definition IsZero :: "Time \<Rightarrow> bool" where
  "IsZero t = (t = 0)"

definition Hour :: int where
  "Hour = 3600 * 1000000000"

definition After :: "Time \<Rightarrow> Time \<Rightarrow> bool" where
  "After t u = (u < t)"

text \<open>
  Modelled from the spec: the ring buffer of \<open>go-ringbuf\<close> is not part of the sources. The
  spec describes it as a fixed-size ring whose insertion overwrites the oldest entry once it
  is full; it is kept as the list of retained entries, oldest first, with its capacity.
\<close>

record 'a RingBuffer =
  cap :: nat
  items :: "'a list"

definition NewRingBuffer :: "nat \<Rightarrow> 'a RingBuffer" where
  "NewRingBuffer n = \<lparr>cap = n, items = []\<rparr>"

definition Push :: "'a \<Rightarrow> 'a RingBuffer \<Rightarrow> 'a RingBuffer" where
  "Push x rb =
     (if length (items rb) < cap rb then rb\<lparr>items := items rb @ [x]\<rparr>
      else rb\<lparr>items := drop 1 (items rb @ [x])\<rparr>)"

definition Clear :: "'a RingBuffer \<Rightarrow> 'a RingBuffer" where
  "Clear rb = rb\<lparr>items := []\<rparr>"

text \<open>
  The analyzer's mutable fields. The \<open>DB\<close> field is an interface whose behaviour belongs to the
  environment below; the mutex is not a field of the sequential model.
\<close>

record 'm Analyzer =
  lastUpdateErr :: Time
  cachedErrors :: "'m ErrorDesc list"
  recentMixinLogs :: "string RingBuffer"

definition NewAnalyzer :: "'m Analyzer" where
  "NewAnalyzer = \<lparr>lastUpdateErr = 0, cachedErrors = [], recentMixinLogs = NewRingBuffer 64\<rparr>"

section \<open>Collaborators\<close>

text \<open>
  The functions the analyzer calls but whose code is elsewhere are parameters. The world
  \<open>'w\<close> is whatever the clock and the repository depend on: reading the clock and enumerating
  the repository both return a new world. \<open>ForEachErrors\<close> is given by what it does with the
  analyzer's callback, which stores every description and never fails: the descriptions it
  visits and the error it returns. \<open>split\<close> and \<open>lineMatchPercent\<close> are the message splitter
  and the line matcher; the type \<open>'l\<close> of what \<open>split\<close> hands to the matcher is left open.
  \<open>selectSend\<close> is the outcome of the \<open>select\<close> of a scoring task: \<open>True\<close> when the send on the
  result channel is taken, \<open>False\<close> when \<open>ctx.Done()\<close> is.
\<close>

record ('w, 'm, 'l) Env =
  timeNow :: "'w \<Rightarrow> Time \<times> 'w"
  ForEachErrors :: "'w \<Rightarrow> ('m ErrorDesc list \<times> error option) \<times> 'w"
  HardCodedChecks :: "'m Analyzer \<Rightarrow> JavaError \<Rightarrow> 'm ErrorDesc option \<times> error option"
  split :: "string \<Rightarrow> char \<Rightarrow> 'l \<times> string"
  lineMatchPercent :: "'l \<Rightarrow> 'm list \<Rightarrow> rat"
  selectSend :: "'w \<Rightarrow> bool \<times> 'w"

text \<open>
  Modelled from the spec: \<open>rsplit\<close> is not part of the sources. The spec has it split a
  dotted name into package prefix and final segment at the last separator, a name without
  separator having the empty prefix.
\<close>

definition rsplit :: "string \<Rightarrow> char \<Rightarrow> string \<times> string" where
  "rsplit str b =
     (if b \<in> set str
      then (rev (drop 1 (dropWhile (\<lambda>c. c \<noteq> b) (rev str))),
            rev (takeWhile (\<lambda>c. c \<noteq> b) (rev str)))
      else ([], str))"

section \<open>The signature cache\<close>

text \<open>
  \<open>updateErrorsLocked\<close>: enumerate the repository; on an error return it and touch nothing;
  otherwise record the time and replace the cached list.
\<close>

definition updateErrorsLocked ::
  "('w, 'm, 'l) Env \<Rightarrow> 'm Analyzer \<Rightarrow> 'w \<Rightarrow> error option \<times> 'm Analyzer \<times> 'w" where
  "updateErrorsLocked env a w =
     (case ForEachErrors env w of
        ((errors, Some err), w1) \<Rightarrow> (Some err, a, w1)
      | ((errors, None), w1) \<Rightarrow>
          (case timeNow env w1 of
             (now, w2) \<Rightarrow> (None, a\<lparr>lastUpdateErr := now, cachedErrors := errors\<rparr>, w2)))"

definition UpdateErrors ::
  "('w, 'm, 'l) Env \<Rightarrow> 'm Analyzer \<Rightarrow> 'w \<Rightarrow> error option \<times> 'm Analyzer \<times> 'w" where
  "UpdateErrors env a w = updateErrorsLocked env a w"

text \<open>
  The freshness test \<open>a.lastUpdateErr.IsZero() || time.Now().After(a.lastUpdateErr.Add(time.Hour))\<close>;
  the clock is read only when the left disjunct is false.
\<close>

definition needUpdate :: "('w, 'm, 'l) Env \<Rightarrow> 'm Analyzer \<Rightarrow> 'w \<Rightarrow> bool \<times> 'w" where
  "needUpdate env a w =
     (if IsZero (lastUpdateErr a) then (True, w)
      else (case timeNow env w of (now, w1) \<Rightarrow> (After now (lastUpdateErr a + Hour), w1)))"

text \<open>
  \<open>getErrors\<close> run by one caller alone: the test under the read lock, the test again under
  the write lock, the refresh whose error is dropped, and the cached list as the result.
\<close>

definition getErrors ::
  "('w, 'm, 'l) Env \<Rightarrow> 'm Analyzer \<Rightarrow> 'w \<Rightarrow> 'm ErrorDesc list \<times> 'm Analyzer \<times> 'w" where
  "getErrors env a w =
     (case needUpdate env a w of
        (False, w1) \<Rightarrow> (cachedErrors a, a, w1)
      | (True, w1) \<Rightarrow>
          (case needUpdate env a w1 of
             (False, w2) \<Rightarrow> (cachedErrors a, a, w2)
           | (True, w2) \<Rightarrow>
               (case updateErrorsLocked env a w2 of
                  (_, a', w3) \<Rightarrow> (cachedErrors a', a', w3))))"

section \<open>Scoring\<close>

text \<open>
  The body of the loop of \<open>DoError\<close> up to the test \<open>sol.Match != 0\<close>: the value of
  \<open>sol.Match\<close> for the error \<open>jerr\<close> and the description \<open>e\<close>.
\<close>

definition DoError_Match :: "('w, 'm, 'l) Env \<Rightarrow> JavaError \<Rightarrow> 'm ErrorDesc \<Rightarrow> rat" where
  "DoError_Match env jerr e =
     (case rsplit (Class jerr) (CHR ''.'') of (epkg, ecls) \<Rightarrow>
      case rsplit (Error e) (CHR ''.'') of (epkg2, ecls2) \<Rightarrow>
      let ignoreErrorTyp = (length ecls2 = 0 \<or> ecls2 = ''*'');
          m0 = (if \<not> ignoreErrorTyp \<and> ecls2 = ecls
                then (if epkg2 = ''*'' \<or> epkg = epkg2 then 1 / 10 else 5 / 100)
                else 0)
      in if length (Message e) = 0 then m0 / (10 / 100)
         else (case split env (JMessage jerr) (CHR 0x0A) of (jemsg, _) \<Rightarrow>
               let matches = lineMatchPercent env jemsg (Message e)
               in if ignoreErrorTyp then matches else m0 + matches * (9 / 10)))"

text \<open>The loop over the cached descriptions; \<open>matched\<close> starts as the nil slice \<open>None\<close>.\<close>

fun DoError_loop ::
  "('w, 'm, 'l) Env \<Rightarrow> JavaError \<Rightarrow> 'm ErrorDesc list \<Rightarrow>
   'm SolutionPossibility list option \<Rightarrow> 'm SolutionPossibility list option" where
  "DoError_loop env jerr [] matched = matched"
| "DoError_loop env jerr (e # es) matched =
     (let sol = \<lparr>ErrorDesc = e, Match = DoError_Match env jerr e\<rparr>
      in DoError_loop env jerr es
           (if Match sol \<noteq> 0
            then Some (case matched of None \<Rightarrow> [sol] | Some ms \<Rightarrow> ms @ [sol])
            else matched))"

definition DoError ::
  "('w, 'm, 'l) Env \<Rightarrow> 'm Analyzer \<Rightarrow> 'w \<Rightarrow> JavaError \<Rightarrow>
   ('m SolutionPossibility list option \<times> error option) \<times> 'm Analyzer \<times> 'w" where
  "DoError env a w jerr =
     (case fst (HardCodedChecks env a jerr) of
        Some e \<Rightarrow> ((Some [\<lparr>ErrorDesc = e, Match = 1\<rparr>], None), a, w)
      | None \<Rightarrow>
          (case getErrors env a w of
             (errs, a', w') \<Rightarrow>
               (case DoError_loop env jerr errs None of
                  None \<Rightarrow> ((Some [], None), a', w')
                | Some ms \<Rightarrow> ((Some ms, None), a', w'))))"

section \<open>The scoring task of the stream pipeline\<close>

text \<open>
  The goroutine that \<open>DoLogStream\<close> starts for one top-level error walks the cause chain. It
  ends when the chain is exhausted, when \<open>DoError\<close> reports an error (the task then cancels
  the session with that error) or when its \<open>select\<close> takes \<open>ctx.Done()\<close>. The model returns
  the results the task has sent on the result channel, in the order of sending.
\<close>

datatype TaskEnd = ChainDone | ScoreFailed error | SawDone

fun scoreTask ::
  "('w, 'm, 'l) Env \<Rightarrow> JavaError option \<Rightarrow> 'm Analyzer \<Rightarrow> 'w \<Rightarrow>
   ('m ErrorResult list \<times> TaskEnd) \<times> 'm Analyzer \<times> 'w" where
  "scoreTask env None a w = (([], ChainDone), a, w)"
| "scoreTask env (Some (JavaError cls msg cause)) a w =
     (case DoError env a w (JavaError cls msg cause) of
        ((matched, Some err), a1, w1) \<Rightarrow> (([], ScoreFailed err), a1, w1)
      | ((matched, None), a1, w1) \<Rightarrow>
          (let res = \<lparr>Error_of = JavaError cls msg cause, Matched = matched, File = []\<rparr>
           in case selectSend env w1 of
                (False, w2) \<Rightarrow> (([], SawDone), a1, w2)
              | (True, w2) \<Rightarrow>
                  (case scoreTask env cause a1 w2 of
                     ((rs, fin), a2, w3) \<Rightarrow> ((res # rs, fin), a2, w3))))"

text \<open>The cause chain of an error, outermost first.\<close>

fun chain :: "JavaError option \<Rightarrow> JavaError list" where
  "chain None = []"
| "chain (Some (JavaError cls msg cause)) = JavaError cls msg cause # chain cause"

section \<open>A concrete environment\<close>

text \<open>
  A repository that answers \<open>db\<close>, a clock that starts at \<open>1000\<close> and advances by one at every
  reading, no hardcoded check, a splitter at the first separator and a line matcher that
  answers \<open>r\<close>; the world counts the clock readings and the repository enumerations.
\<close>

definition exEnv ::
  "(char ErrorDesc list \<times> error option) \<Rightarrow> rat \<Rightarrow> bool \<Rightarrow> (nat \<times> nat, char, string) Env" where
  "exEnv db r snd_ok =
     \<lparr>timeNow = (\<lambda>(t, n). (1000 + int t, (Suc t, n))),
      ForEachErrors = (\<lambda>(t, n). (db, (t, Suc n))),
      HardCodedChecks = (\<lambda>a jerr. (None, None)),
      split = (\<lambda>s c. (takeWhile (\<lambda>x. x \<noteq> c) s, drop 1 (dropWhile (\<lambda>x. x \<noteq> c) s))),
      lineMatchPercent = (\<lambda>l m. r),
      selectSend = (\<lambda>w. (snd_ok, w))\<rparr>"

text \<open>The inputs used to run the definitions: an error of class \<open>com.example.Foo\<close> with a cause.\<close>

definition exCause :: JavaError where
  "exCause = JavaError ''java.lang.ClassNotFoundException'' ''com.example.Bar'' None"

definition exError :: JavaError where
  "exError = JavaError ''com.example.Foo'' ''Could not load class'' (Some exCause)"

definition exDescs :: "char ErrorDesc list" where
  "exDescs =
     [\<lparr>Error = ''com.example.*'', Message = ''Could not load class''\<rparr>,
      \<lparr>Error = ''com.example.Foo'', Message = ''Could not load class''\<rparr>,
      \<lparr>Error = ''org.other.Foo'', Message = ''Could not load class''\<rparr>,
      \<lparr>Error = ''*.Foo'', Message = []\<rparr>,
      \<lparr>Error = ''org.other.Foo'', Message = []\<rparr>,
      \<lparr>Error = ''org.other.Bar'', Message = []\<rparr>]"

section \<open>The recorder of tagged log lines\<close>

text \<open>
  The regular expression of the source,
  \<^verbatim>\<open>^\[[^\]]*\]\s*\[[^\]]*\]\s*\[mixin/[^\]]*\]:\s*(.+)$\<close>,
  read from left to right. \<open>\s\<close> is the class of tab, line feed, form feed, carriage return
  and space. A piece \<open>\[ \<dots> [^\]]* \]\<close> can only end at the first closing bracket, and the
  whitespace before an opening bracket can only be the whole run of whitespace, so up to the
  colon the match is forced. \<open>seg opn cls\<close> matches the literal \<open>opn\<close>, the characters up to
  the first closing bracket, and the literal \<open>cls\<close> (which starts with that bracket), and
  returns the rest.
\<close>

definition isSpace :: "char \<Rightarrow> bool" where
  "isSpace c = (c \<in> {CHR 0x09, CHR 0x0A, CHR 0x0C, CHR 0x0D, CHR 0x20})"

definition seg :: "string \<Rightarrow> string \<Rightarrow> string \<Rightarrow> string option" where
  "seg opn cls s =
     (if take (length opn) s = opn
      then (let r = dropWhile (\<lambda>x. x \<noteq> CHR '']'') (drop (length opn) s)
            in if take (length cls) r = cls then Some (drop (length cls) r) else None)
      else None)"

text \<open>
  The end of the expression, \<open>\s*(.+)$\<close>, on the rest of the line: the greedy \<open>\s*\<close> takes as
  much whitespace as leaves a non-empty group, and the dot does not match a line feed. When
  the rest has a character that is not whitespace the group starts at the first one; when
  the rest is whitespace only, the group is its last character.
\<close>

definition group1 :: "string \<Rightarrow> string option" where
  "group1 rest =
     (let tl = dropWhile isSpace rest
      in if tl \<noteq> [] then (if CHR 0x0A \<in> set tl then None else Some tl)
         else if rest \<noteq> [] \<and> last rest \<noteq> CHR 0x0A then Some [last rest]
         else None)"

definition mixinLogRe_prefix :: "string \<Rightarrow> string option" where
  "mixinLogRe_prefix buf =
     (case seg ''['' '']'' buf of None \<Rightarrow> None
      | Some r1 \<Rightarrow>
     (case seg ''['' '']'' (dropWhile isSpace r1) of None \<Rightarrow> None
      | Some r2 \<Rightarrow> seg ''[mixin/'' '']:'' (dropWhile isSpace r2)))"

text \<open>\<open>FindSubmatch\<close> on a line: the first group of the match, or \<open>None\<close> without a match.\<close>

definition mixinLogRe_FindSubmatch :: "string \<Rightarrow> string option" where
  "mixinLogRe_FindSubmatch buf =
     (case mixinLogRe_prefix buf of None \<Rightarrow> None | Some r3 \<Rightarrow> group1 r3)"

text \<open>
  The same expression as a set of lines: every way to cut a line into the pieces of the
  expression, with the text \<open>v\<close> of the group. \<open>tail_lang\<close> is the part after the colon.
\<close>

definition mixinLogRe_lang :: "string \<Rightarrow> string \<Rightarrow> bool" where
  "mixinLogRe_lang buf v =
     (\<exists>s1 w1 s2 w2 s3 w3.
        buf = ''['' @ s1 @ '']'' @ w1 @ ''['' @ s2 @ '']'' @ w2 @ ''[mixin/'' @ s3 @ '']:'' @ w3 @ v
        \<and> CHR '']'' \<notin> set s1 \<and> CHR '']'' \<notin> set s2 \<and> CHR '']'' \<notin> set s3
        \<and> list_all isSpace w1 \<and> list_all isSpace w2 \<and> list_all isSpace w3
        \<and> v \<noteq> [] \<and> CHR 0x0A \<notin> set v)"

definition tail_lang :: "string \<Rightarrow> string \<Rightarrow> bool" where
  "tail_lang rest v =
     (\<exists>w. rest = w @ v \<and> list_all isSpace w \<and> v \<noteq> [] \<and> CHR 0x0A \<notin> set v)"

text \<open>
  The recorder: \<open>newLogRecorder\<close> clears the ring, \<open>record\<close> pushes the group of a matching
  line, and \<open>Write\<close> appends the bytes to its buffer, records every complete line and keeps
  the incomplete end (\<open>Write_loop\<close> is its loop, on the buffer from index \<open>i\<close> on).
\<close>

record logRecorder =
  closed :: bool
  buf :: string

definition newLogRecorder :: "'m Analyzer \<Rightarrow> logRecorder \<times> 'm Analyzer" where
  "newLogRecorder a =
     (\<lparr>closed = False, buf = []\<rparr>, a\<lparr>recentMixinLogs := Clear (recentMixinLogs a)\<rparr>)"

definition logRecorder_record :: "string \<Rightarrow> 'm Analyzer \<Rightarrow> 'm Analyzer" where
  "logRecorder_record line a =
     (case mixinLogRe_FindSubmatch line of
        None \<Rightarrow> a
      | Some m \<Rightarrow> a\<lparr>recentMixinLogs := Push m (recentMixinLogs a)\<rparr>)"

function Write_loop :: "string \<Rightarrow> 'm Analyzer \<Rightarrow> string \<times> 'm Analyzer" where
  "Write_loop rest a =
     (if CHR 0x0A \<in> set rest
      then Write_loop (drop 1 (dropWhile (\<lambda>c. c \<noteq> CHR 0x0A) rest))
             (logRecorder_record (takeWhile (\<lambda>c. c \<noteq> CHR 0x0A) rest) a)
      else (rest, a))"
  by pat_completeness auto
termination
proof (relation "measure (\<lambda>(rest, a). length rest)")
  show "wf (measure (\<lambda>(rest, a :: 'm Analyzer). length rest))" by simp
next
  fix rest :: string and a :: "'m Analyzer"
  assume "CHR 0x0A \<in> set rest"
  then have "dropWhile (\<lambda>c. c \<noteq> CHR 0x0A) rest \<noteq> []" by (simp add: dropWhile_eq_Nil_conv)
  moreover have "length (dropWhile (\<lambda>c. c \<noteq> CHR 0x0A) rest) \<le> length rest"
    by (simp add: length_dropWhile_le)
  ultimately show "((drop 1 (dropWhile (\<lambda>c. c \<noteq> CHR 0x0A) rest),
            logRecorder_record (takeWhile (\<lambda>c. c \<noteq> CHR 0x0A) rest) a), (rest, a))
          \<in> measure (\<lambda>(rest, a). length rest)"
    by (cases "dropWhile (\<lambda>c. c \<noteq> CHR 0x0A) rest") auto
qed

definition Write ::
  "string \<Rightarrow> logRecorder \<Rightarrow> 'm Analyzer \<Rightarrow> (nat \<times> error option) \<times> logRecorder \<times> 'm Analyzer" where
  "Write bytes r a =
     (case Write_loop (buf r @ bytes) a of
        (rest, a') \<Rightarrow> ((length bytes, None), r\<lparr>buf := rest\<rparr>, a'))"

definition Close :: "logRecorder \<Rightarrow> error option \<times> logRecorder" where
  "Close r = (if closed r then (None, r) else (None, r\<lparr>closed := True, buf := []\<rparr>))"

text \<open>A log line with the tag of the mixin subsystem, numbered \<open>i\<close>.\<close>

definition exLine :: "nat \<Rightarrow> string" where
  "exLine i = ''[12:00:00] [main/INFO] [mixin/]: line '' @ [char_of (48 + i)]"

section \<open>Concurrent callers of the signature cache\<close>

text \<open>
  Several callers of \<open>getErrors\<close> at once. The mutex makes the section under the read lock
  and the section under the write lock each one indivisible step, so a concurrent run is
  a sequence of such steps, one caller at a time, in any order. A caller is at its start,
  has made the test under the read lock with the outcome \<open>needUpdate\<close>, has left the
  write lock, or has returned the list it read. \<open>fetches\<close> counts the enumerations of the
  repository.
\<close>

datatype 'm pc = PStart | PChecked bool | PUnlocked | PReturned "'m ErrorDesc list"

record ('w, 'm) Sys =
  analyzer :: "'m Analyzer"
  world :: 'w
  callers :: "'m pc list"
  fetches :: nat

definition getErrors_step :: "('w, 'm, 'l) Env \<Rightarrow> nat \<Rightarrow> ('w, 'm) Sys \<Rightarrow> ('w, 'm) Sys" where
  "getErrors_step env i s =
     (if i < length (callers s) then
        (case callers s ! i of
           PStart \<Rightarrow>
             (case needUpdate env (analyzer s) (world s) of
                (b, w1) \<Rightarrow> s\<lparr>world := w1, callers := (callers s)[i := PChecked b]\<rparr>)
         | PChecked b \<Rightarrow>
             (if b then
                (case needUpdate env (analyzer s) (world s) of
                   (False, w1) \<Rightarrow> s\<lparr>world := w1, callers := (callers s)[i := PUnlocked]\<rparr>
                 | (True, w1) \<Rightarrow>
                     (case updateErrorsLocked env (analyzer s) w1 of
                        (_, a', w2) \<Rightarrow>
                          s\<lparr>analyzer := a', world := w2, callers := (callers s)[i := PUnlocked],
                            fetches := Suc (fetches s)\<rparr>))
              else s\<lparr>callers := (callers s)[i := PReturned (cachedErrors (analyzer s))]\<rparr>)
         | PUnlocked \<Rightarrow> s\<lparr>callers := (callers s)[i := PReturned (cachedErrors (analyzer s))]\<rparr>
         | PReturned errs \<Rightarrow> s)
      else s)"

definition getErrors_run :: "('w, 'm, 'l) Env \<Rightarrow> nat list \<Rightarrow> ('w, 'm) Sys \<Rightarrow> ('w, 'm) Sys" where
  "getErrors_run env sched s = fold (getErrors_step env) sched s"

definition getErrors_init :: "'m Analyzer \<Rightarrow> 'w \<Rightarrow> nat \<Rightarrow> ('w, 'm) Sys" where
  "getErrors_init a w n = \<lparr>analyzer = a, world = w, callers = replicate n PStart, fetches = 0\<rparr>"

text \<open>The concrete environment with a clock that stands still at \<open>1000\<close>.\<close>

definition exInstantEnv :: "(char ErrorDesc list \<times> error option) \<Rightarrow> (nat \<times> nat, char, string) Env" where
  "exInstantEnv db = (exEnv db (8 / 10) True)\<lparr>timeNow := (\<lambda>(t, n). (1000, (Suc t, n)))\<rparr>"

text \<open>
  Once a refresh has succeeded, its time lies in the window that starts at \<open>T0\<close>.
\<close>

definition fresh_inv :: "Time \<Rightarrow> ('w, 'm) Sys \<Rightarrow> bool" where
  "fresh_inv T0 s =
     (fetches s = 0 \<or>
      (fetches s = 1 \<and> T0 < lastUpdateErr (analyzer s) \<and> lastUpdateErr (analyzer s) \<le> T0 + Hour))"

section \<open>The stream pipeline as interleaved steps\<close>

text \<open>
  \<open>DoLogStream\<close> starts a main goroutine, which starts one scoring task for every error
  that the tokenizer delivers. A run is a sequence of events, each one step of one
  goroutine. The main goroutine is in its loop, in \<open>wg.Wait()\<close>, or has returned, which runs
  the deferred \<open>close(result)\<close>. A task is at the head of its loop with the error to score
  (\<open>TLoop\<close>), at its \<open>select\<close> with the result to send and the cause to go on with
  (\<open>TSelect\<close>), or has ended (\<open>TEnd\<close>). \<open>resCh\<close> and \<open>errCh\<close> hold what the tokenizer has
  still to deliver, \<open>result\<close> is the buffer of the result channel (capacity 3), \<open>received\<close>
  what the consumer has taken from it, \<open>closes\<close> the number of times the channel was
  closed, \<open>cause\<close> the cancellation cause of the context (\<open>None\<close>: not cancelled), and
  \<open>sendOnClosed\<close> whether a task has executed its send on the closed channel. The tee into
  the recorder is not part of this model.
\<close>

datatype MainPc = MLoop | MWait | MReturned

datatype 'm Task = TLoop "JavaError option" | TSelect "'m ErrorResult" "JavaError option" | TEnd

datatype Event =
    MainRecv | MainErr | MainCtxDone | MainWaited
  | TaskScore nat | TaskSend nat | TaskCtxDone nat
  | Consume | CallerCancel error

record ('w, 'm) Pipe =
  pmain :: MainPc
  resCh :: "JavaError option list"
  errCh :: "error option"
  tasks :: "'m Task list"
  result :: "'m ErrorResult list"
  received :: "'m ErrorResult list"
  closes :: nat
  cause :: "error option"
  sendOnClosed :: bool
  panalyzer :: "'m Analyzer"
  pworld :: 'w

text \<open>\<open>cancel(err)\<close>: the first cause stays.\<close>

definition cancel :: "error \<Rightarrow> ('w, 'm) Pipe \<Rightarrow> ('w, 'm) Pipe" where
  "cancel err p = (case cause p of None \<Rightarrow> p\<lparr>cause := Some err\<rparr> | Some c \<Rightarrow> p)"

text \<open>A \<open>return\<close> of the main goroutine, with its deferred \<open>close(result)\<close>.\<close>

definition main_return :: "('w, 'm) Pipe \<Rightarrow> ('w, 'm) Pipe" where
  "main_return p = p\<lparr>pmain := MReturned, closes := Suc (closes p)\<rparr>"

text \<open>
  One event. \<open>MainRecv\<close>, \<open>MainErr\<close> and \<open>MainCtxDone\<close> are the three cases of the \<open>select\<close>
  of the main loop, \<open>MainWaited\<close> the return of \<open>wg.Wait()\<close>; \<open>TaskScore\<close> is the loop test
  and the call of \<open>DoError\<close>, \<open>TaskSend\<close> and \<open>TaskCtxDone\<close> are the two cases of the
  \<open>select\<close> of a task. A send on a closed channel can be taken by a \<open>select\<close> (it panics); a
  send on an open channel needs room in the buffer. An event that cannot happen in a state
  gives \<open>None\<close>.
\<close>

definition DoLogStream_step ::
  "('w, 'm, 'l) Env \<Rightarrow> Event \<Rightarrow> ('w, 'm) Pipe \<Rightarrow> ('w, 'm) Pipe option" where
  "DoLogStream_step env ev p =
     (case ev of
        MainRecv \<Rightarrow>
          (if pmain p = MLoop then
             (case resCh p of
                [] \<Rightarrow> None
              | None # rest \<Rightarrow> Some (p\<lparr>pmain := MWait, resCh := rest\<rparr>)
              | Some jerr # rest \<Rightarrow> Some (p\<lparr>resCh := rest, tasks := tasks p @ [TLoop (Some jerr)]\<rparr>))
           else None)
      | MainErr \<Rightarrow>
          (if pmain p = MLoop then
             (case errCh p of
                None \<Rightarrow> None
              | Some err \<Rightarrow> Some (main_return (cancel err (p\<lparr>errCh := None\<rparr>))))
           else None)
      | MainCtxDone \<Rightarrow>
          (if pmain p = MLoop \<and> cause p \<noteq> None then Some (main_return p) else None)
      | MainWaited \<Rightarrow>
          (if pmain p = MWait \<and> list_all (\<lambda>t. t = TEnd) (tasks p) then Some (main_return p)
           else None)
      | TaskScore i \<Rightarrow>
          (if i < length (tasks p) then
             (case tasks p ! i of
                TLoop None \<Rightarrow> Some (p\<lparr>tasks := (tasks p)[i := TEnd]\<rparr>)
              | TLoop (Some jerr) \<Rightarrow>
                  (case DoError env (panalyzer p) (pworld p) jerr of
                     ((matched, Some err), a1, w1) \<Rightarrow>
                       Some (cancel err (p\<lparr>tasks := (tasks p)[i := TEnd], panalyzer := a1, pworld := w1\<rparr>))
                   | ((matched, None), a1, w1) \<Rightarrow>
                       Some (p\<lparr>tasks := (tasks p)[i := TSelect \<lparr>Error_of = jerr, Matched = matched, File = []\<rparr> (CausedBy jerr)],
                               panalyzer := a1, pworld := w1\<rparr>))
              | TSelect res next \<Rightarrow> None
              | TEnd \<Rightarrow> None)
           else None)
      | TaskSend i \<Rightarrow>
          (if i < length (tasks p) then
             (case tasks p ! i of
                TSelect res next \<Rightarrow>
                  (if 0 < closes p then Some (p\<lparr>tasks := (tasks p)[i := TEnd], sendOnClosed := True\<rparr>)
                   else if length (result p) < 3
                   then Some (p\<lparr>tasks := (tasks p)[i := TLoop next], result := result p @ [res]\<rparr>)
                   else None)
              | TLoop jerr \<Rightarrow> None
              | TEnd \<Rightarrow> None)
           else None)
      | TaskCtxDone i \<Rightarrow>
          (if i < length (tasks p) \<and> cause p \<noteq> None then
             (case tasks p ! i of
                TSelect res next \<Rightarrow> Some (p\<lparr>tasks := (tasks p)[i := TEnd]\<rparr>)
              | TLoop jerr \<Rightarrow> None
              | TEnd \<Rightarrow> None)
           else None)
      | Consume \<Rightarrow>
          (case result p of
             [] \<Rightarrow> None
           | res # rest \<Rightarrow> Some (p\<lparr>result := rest, received := received p @ [res]\<rparr>))
      | CallerCancel err \<Rightarrow> Some (cancel err p))"

fun DoLogStream_run ::
  "('w, 'm, 'l) Env \<Rightarrow> Event list \<Rightarrow> ('w, 'm) Pipe \<Rightarrow> ('w, 'm) Pipe option" where
  "DoLogStream_run env [] p = Some p"
| "DoLogStream_run env (ev # evs) p =
     (case DoLogStream_step env ev p of None \<Rightarrow> None | Some p' \<Rightarrow> DoLogStream_run env evs p')"

definition DoLogStream_init ::
  "'m Analyzer \<Rightarrow> 'w \<Rightarrow> JavaError option list \<Rightarrow> error option \<Rightarrow> ('w, 'm) Pipe" where
  "DoLogStream_init a w res err =
     \<lparr>pmain = MLoop, resCh = res, errCh = err, tasks = [], result = [], received = [],
      closes = 0, cause = None, sendOnClosed = False,
      panalyzer = snd (newLogRecorder a), pworld = w\<rparr>"

text \<open>
  A session whose tokenizer delivers one error and then has a terminal error to report.
\<close>

definition exPipeEnv :: "(nat \<times> nat, char, string) Env" where
  "exPipeEnv = exEnv (exDescs, None) (8 / 10) True"

definition exPipe :: "(nat \<times> nat, char) Pipe" where
  "exPipe = DoLogStream_init NewAnalyzer (0, 0) [Some exCause, None] (Some (GoError ''tokenize''))"

section \<open>Properties of the scoring operation\<close>

lemma DoError_loop_filter:
  "DoError_loop env jerr es matched =
     (let new = filter (\<lambda>s. Match s \<noteq> 0)
                  (map (\<lambda>e. \<lparr>ErrorDesc = e, Match = DoError_Match env jerr e\<rparr>) es)
      in if new = [] then matched
         else Some ((case matched of None \<Rightarrow> [] | Some ms \<Rightarrow> ms) @ new))"
  by (induction es arbitrary: matched) (auto simp: Let_def split: option.splits)

text \<open>
  Without a hardcoded answer, \<open>DoError\<close> returns one candidate for every cached description
  whose \<open>sol.Match\<close> is not zero, in the order of the cache.
\<close>

lemma DoError_generic:
  assumes "fst (HardCodedChecks env a jerr) = None" and "getErrors env a w = (errs, a', w')"
  shows "DoError env a w jerr =
     ((Some (filter (\<lambda>s. Match s \<noteq> 0)
               (map (\<lambda>e. \<lparr>ErrorDesc = e, Match = DoError_Match env jerr e\<rparr>) errs)), None),
      a', w')"
  using assms by (simp add: DoError_def DoError_loop_filter Let_def split: option.splits)

lemma DoError_hardcoded:
  assumes "fst (HardCodedChecks env a jerr) = Some e"
  shows "DoError env a w jerr = ((Some [\<lparr>ErrorDesc = e, Match = 1\<rparr>], None), a, w)"
  using assms by (simp add: DoError_def)

lemma DoError_err_None: "snd (fst (DoError env a w jerr)) = None"
  by (simp add: DoError_def split: option.splits prod.splits)



text \<open>
  C2, as amended. With an empty message template and equal final segments, where the final
  segment of the description's key is neither empty nor \<open>*\<close>: the score is \<open>1.0\<close> when the
  packages are equal or the description's package is \<open>*\<close>, and \<open>0.5\<close> when the description's
  package is another one.
\<close>

theorem DoError_Match_no_template:
  assumes "Message e = []"
    and "rsplit (Class jerr) (CHR ''.'') = (epkg, ecls)"
    and "rsplit (Error e) (CHR ''.'') = (epkg2, ecls2)"
    and "ecls2 = ecls" and "ecls2 \<noteq> []" and "ecls2 \<noteq> ''*''"
  shows "(epkg = epkg2 \<or> epkg2 = ''*'' \<longrightarrow> DoError_Match env jerr e = 1)
       \<and> (epkg \<noteq> epkg2 \<and> epkg2 \<noteq> ''*'' \<longrightarrow> DoError_Match env jerr e = 5 / 10)"
  using assms by (auto simp: DoError_Match_def Let_def split: prod.splits)

theorem DoError_Match_no_template_witness:
  "DoError_Match (exEnv ([], None) (8 / 10) True) exError (exDescs ! 3) = 1
   \<and> DoError_Match (exEnv ([], None) (8 / 10) True) exError (exDescs ! 4) = 5 / 10"
proof -
  let ?env = "exEnv ([], None) (8 / 10) True"
  have c: "rsplit (Class exError) (CHR ''.'') = (''com.example'', ''Foo'')"
    by (simp add: rsplit_def exError_def)
  have "DoError_Match ?env exError (exDescs ! 3) = 1"
    using DoError_Match_no_template [of "exDescs ! 3" exError "''com.example''" "''Foo''"
        "''*''" "''Foo''" ?env] c
    by (simp add: exDescs_def rsplit_def)
  moreover have "DoError_Match ?env exError (exDescs ! 4) = 5 / 10"
    using DoError_Match_no_template [of "exDescs ! 4" exError "''com.example''" "''Foo''"
        "''org.other''" "''Foo''" ?env] c
    by (simp add: exDescs_def rsplit_def)
  ultimately show ?thesis by simp
qed

text \<open>
  C2 as stated fails where the equal final segments are the wildcard: the description
  \<open>com.example.*\<close> without template and an error whose class is \<open>com.example.*\<close> have equal
  packages and equal final segments, and the score is \<open>0\<close>, not \<open>1.0\<close>.
\<close>

theorem DoError_Match_no_template_counterexample:
  "Message \<lparr>Error = ''com.example.*'', Message = ([] :: char list)\<rparr> = []
   \<and> snd (rsplit (Error \<lparr>Error = ''com.example.*'', Message = ([] :: char list)\<rparr>) (CHR ''.''))
       = snd (rsplit (Class (JavaError ''com.example.*'' ''boom'' None)) (CHR ''.''))
   \<and> fst (rsplit (Error \<lparr>Error = ''com.example.*'', Message = ([] :: char list)\<rparr>) (CHR ''.''))
       = fst (rsplit (Class (JavaError ''com.example.*'' ''boom'' None)) (CHR ''.''))
   \<and> DoError_Match (exEnv ([], None) (8 / 10) True) (JavaError ''com.example.*'' ''boom'' None)
        \<lparr>Error = ''com.example.*'', Message = ([] :: char list)\<rparr> = 0
   \<and> DoError_Match (exEnv ([], None) (8 / 10) True) (JavaError ''com.example.*'' ''boom'' None)
        \<lparr>Error = ''com.example.*'', Message = ([] :: char list)\<rparr> \<noteq> 1"
  by (simp add: DoError_Match_def rsplit_def)

text \<open>
  C8. The list that \<open>DoError\<close> returns is never the nil slice, none of its candidates has the
  score \<open>0\<close>, and it is the empty list when no cached description scores.
\<close>

theorem DoError_candidates_nonzero:
  "\<exists>ms. fst (fst (DoError env a w jerr)) = Some ms \<and> (\<forall>s \<in> set ms. Match s \<noteq> 0)
      \<and> (fst (HardCodedChecks env a jerr) = None \<and>
          (\<forall>e \<in> set (fst (getErrors env a w)). DoError_Match env jerr e = 0) \<longrightarrow> ms = [])"
proof (cases "fst (HardCodedChecks env a jerr)")
  case None
  obtain errs a' w' where g: "getErrors env a w = (errs, a', w')"
    by (cases "getErrors env a w") auto
  show ?thesis using DoError_generic [OF None g] g by (auto simp: filter_empty_conv)
next
  case (Some e)
  show ?thesis using DoError_hardcoded [OF Some] Some by simp
qed

theorem DoError_candidates_nonzero_witness:
  "fst (HardCodedChecks (exEnv ([exDescs ! 5], None) (8 / 10) True) NewAnalyzer exError) = None
   \<and> fst (getErrors (exEnv ([exDescs ! 5], None) (8 / 10) True)
            (NewAnalyzer :: char Analyzer) (0, 0)) = [exDescs ! 5]
   \<and> DoError_Match (exEnv ([exDescs ! 5], None) (8 / 10) True) exError (exDescs ! 5) = 0
   \<and> fst (fst (DoError (exEnv ([exDescs ! 5], None) (8 / 10) True) NewAnalyzer (0, 0) exError))
       = Some []"
  using DoError_candidates_nonzero
          [of "exEnv ([exDescs ! 5], None) (8 / 10) True" NewAnalyzer "(0, 0)" exError]
  by (simp add: getErrors_def needUpdate_def updateErrorsLocked_def exEnv_def NewAnalyzer_def
        IsZero_def DoError_Match_def rsplit_def exDescs_def exError_def)

section \<open>Properties of the signature cache\<close>

text \<open>
  C6. When the repository reports an error, the refresh returns that error, and the cached
  list and the time of the last successful refresh are what they were.
\<close>

theorem updateErrorsLocked_failure_keeps_cache:
  assumes "ForEachErrors env w = ((visited, Some err), w1)"
  shows "updateErrorsLocked env a w = (Some err, a, w1)
       \<and> UpdateErrors env a w = (Some err, a, w1)"
  using assms by (simp add: updateErrorsLocked_def UpdateErrors_def)

theorem updateErrorsLocked_failure_keeps_cache_witness:
  "updateErrorsLocked (exEnv ([exDescs ! 0], Some (GoError ''fetch failed'')) (8 / 10) True)
       \<lparr>lastUpdateErr = 500, cachedErrors = [exDescs ! 3], recentMixinLogs = NewRingBuffer 64\<rparr>
       (0, 0)
     = (Some (GoError ''fetch failed''),
        \<lparr>lastUpdateErr = 500, cachedErrors = [exDescs ! 3], recentMixinLogs = NewRingBuffer 64\<rparr>,
        (0, 1))"
  using updateErrorsLocked_failure_keeps_cache
          [of "exEnv ([exDescs ! 0], Some (GoError ''fetch failed'')) (8 / 10) True" "(0, 0)"
              "[exDescs ! 0]" "GoError ''fetch failed''" "(0, 1)"
              "\<lparr>lastUpdateErr = 500, cachedErrors = [exDescs ! 3],
                 recentMixinLogs = NewRingBuffer 64\<rparr>"]
  by (simp add: exEnv_def)

text \<open>
  C3, as amended. Before the first successful refresh (the time of the last refresh is the
  zero time and the cached list is nil), if the refresh that \<open>getErrors\<close> attempts fails, then
  \<open>getErrors\<close> returns the nil list and leaves the analyzer as it was; the error of the refresh
  is dropped.
\<close>

theorem getErrors_never_loaded_refresh_fails:
  assumes "IsZero (lastUpdateErr a)" and "cachedErrors a = []"
    and "ForEachErrors env w = ((visited, Some err), w1)"
  shows "getErrors env a w = ([], a, w1)"
  using assms by (simp add: getErrors_def needUpdate_def updateErrorsLocked_def)

theorem getErrors_never_loaded_refresh_fails_witness:
  "getErrors (exEnv ([], Some (GoError ''fetch failed'')) (8 / 10) True)
       (NewAnalyzer :: char Analyzer) (0, 0)
     = ([], NewAnalyzer, (0, 1))"
  using getErrors_never_loaded_refresh_fails
          [of "NewAnalyzer :: char Analyzer"
              "exEnv ([], Some (GoError ''fetch failed'')) (8 / 10) True" "(0, 0)"
              "[]" "GoError ''fetch failed''" "(0, 1)"]
  by (simp add: exEnv_def NewAnalyzer_def IsZero_def)

text \<open>
  C3 as stated fails: on a new analyzer whose repository reports an error, the refresh fails,
  and \<open>getErrors\<close> returns a list all the same, from which \<open>DoError\<close> answers with the empty
  candidate list and the nil error.
\<close>

theorem getErrors_NotYetLoaded_counterexample:
  "IsZero (lastUpdateErr (NewAnalyzer :: char Analyzer))
   \<and> fst (updateErrorsLocked (exEnv ([], Some (GoError ''fetch failed'')) (8 / 10) True)
            (NewAnalyzer :: char Analyzer) (0, 0)) = Some (GoError ''fetch failed'')
   \<and> fst (getErrors (exEnv ([], Some (GoError ''fetch failed'')) (8 / 10) True)
            (NewAnalyzer :: char Analyzer) (0, 0)) = []
   \<and> fst (DoError (exEnv ([], Some (GoError ''fetch failed'')) (8 / 10) True)
            (NewAnalyzer :: char Analyzer) (0, 0) exError) = (Some [], None)"
  by (simp add: DoError_def getErrors_def needUpdate_def updateErrorsLocked_def exEnv_def
        NewAnalyzer_def IsZero_def)

section \<open>Properties of the scoring task\<close>

lemma scoreTask_not_failed: "snd (fst (scoreTask env j a w)) \<noteq> ScoreFailed err"
proof (induction j arbitrary: a w rule: chain.induct)
  case 1
  then show ?case by simp
next
  case (2 cls msg cause)
  obtain m er a1 w1 where d: "DoError env a w (JavaError cls msg cause) = ((m, er), a1, w1)"
    by (metis prod.exhaust)
  have e: "er = None"
    using DoError_err_None [of env a w "JavaError cls msg cause"] d by simp
  obtain b w2 where s: "selectSend env w1 = (b, w2)"
    by (metis prod.exhaust)
  show ?case
  proof (cases b)
    case True
    obtain rs fin a2 w3 where r: "scoreTask env cause a1 w2 = ((rs, fin), a2, w3)"
      by (metis prod.exhaust)
    have "fin \<noteq> ScoreFailed err" using 2 [of a1 w2] r by simp
    then show ?thesis using d e s True r by simp
  next
    case False
    then show ?thesis using d e s by simp
  qed
qed


text \<open>
  C10. \<open>DoError\<close> returns the nil error for every error, analyzer and environment, so the
  scoring task never ends in the branch that cancels the session with a scoring error.
\<close>

theorem DoError_never_fails:
  "snd (fst (DoError env a w jerr)) = None
   \<and> (\<forall>err. snd (fst (scoreTask env j a w)) \<noteq> ScoreFailed err)"
  by (simp add: DoError_err_None scoreTask_not_failed)

theorem DoError_never_fails_witness:
  "snd (fst (DoError (exEnv (exDescs, Some (GoError ''fetch failed'')) (8 / 10) True)
               NewAnalyzer (0, 0) exError)) = None
   \<and> snd (fst (scoreTask (exEnv (exDescs, Some (GoError ''fetch failed'')) (8 / 10) True)
               (Some exError) NewAnalyzer (0, 0))) \<noteq> ScoreFailed (GoError ''fetch failed'')"
  using DoError_never_fails
          [of "exEnv (exDescs, Some (GoError ''fetch failed'')) (8 / 10) True" NewAnalyzer
              "(0, 0)" exError "Some exError"]
  by simp



section \<open>Properties of the recorder\<close>

lemma seg_iff:
  assumes "cls \<noteq> []" "hd cls = CHR '']''"
  shows "seg opn cls s = Some r \<longleftrightarrow> (\<exists>t. s = opn @ t @ cls @ r \<and> CHR '']'' \<notin> set t)"
proof
  assume a: "seg opn cls s = Some r"
  let ?d = "drop (length opn) s"
  let ?r = "dropWhile (\<lambda>x. x \<noteq> CHR '']'') ?d"
  from a have p: "take (length opn) s = opn" and q: "take (length cls) ?r = cls" and r: "r = drop (length cls) ?r"
    by (auto simp: seg_def Let_def split: if_splits)
  have "s = opn @ ?d" using p by (metis append_take_drop_id)
  moreover have "?d = takeWhile (\<lambda>x. x \<noteq> CHR '']'') ?d @ ?r" by simp
  moreover have "?r = cls @ r" using q r by (metis append_take_drop_id)
  moreover have "CHR '']'' \<notin> set (takeWhile (\<lambda>x. x \<noteq> CHR '']'') ?d)"
    by (metis (mono_tags, lifting) set_takeWhileD)
  ultimately show "\<exists>t. s = opn @ t @ cls @ r \<and> CHR '']'' \<notin> set t" by metis
next
  assume "\<exists>t. s = opn @ t @ cls @ r \<and> CHR '']'' \<notin> set t"
  then obtain t where s: "s = opn @ t @ cls @ r" and t: "CHR '']'' \<notin> set t" by blast
  obtain c where c: "cls = CHR '']'' # c" using assms by (cases cls) auto
  have "dropWhile (\<lambda>x. x \<noteq> CHR '']'') (t @ cls @ r) = cls @ r"
    using t c by (auto simp: dropWhile_append3)
  then show "seg opn cls s = Some r" using s by (simp add: seg_def)
qed


lemma dropWhile_isSpace_append:
  assumes "list_all isSpace w" and "r = [] \<or> \<not> isSpace (hd r)"
  shows "dropWhile isSpace (w @ r) = r"
proof -
  have "dropWhile isSpace (w @ r) = dropWhile isSpace r"
    using assms(1) by (induction w) auto
  moreover have "dropWhile isSpace r = r" using assms(2) by (cases r) auto
  ultimately show ?thesis by simp
qed

lemma nl_isSpace: "isSpace (CHR 0x0A)" by (simp add: isSpace_def)

lemma tail_lang_dropWhile:
  assumes "tail_lang rest v"
  shows "\<exists>u. v = u @ dropWhile isSpace rest \<and> list_all isSpace u"
proof -
  from assms obtain w where r: "rest = w @ v" and w: "list_all isSpace w"
    by (auto simp: tail_lang_def)
  have "dropWhile isSpace (w @ v) = dropWhile isSpace v"
    using w by (induction w) auto
  then have "v = takeWhile isSpace v @ dropWhile isSpace rest" using r by simp
  moreover have "list_all isSpace (takeWhile isSpace v)"
    by (simp add: list_all_iff) (metis set_takeWhileD)
  ultimately show ?thesis by blast
qed

lemma group1_Some:
  "group1 rest = Some v \<longleftrightarrow>
     tail_lang rest v \<and> (\<forall>v'. tail_lang rest v' \<longrightarrow> length v \<le> length v')"
proof (cases "dropWhile isSpace rest = []")
  case False
  let ?t = "dropWhile isSpace rest"
  have dec: "rest = takeWhile isSpace rest @ ?t" by simp
  have sp: "list_all isSpace (takeWhile isSpace rest)"
    by (simp add: list_all_iff) (metis set_takeWhileD)
  have suffix: "\<exists>u. v' = u @ ?t" if "tail_lang rest v'" for v'
    using tail_lang_dropWhile [OF that] by blast
  show ?thesis
  proof (cases "CHR 0x0A \<in> set ?t")
    case True
    have "\<not> tail_lang rest v'" for v'
    proof
      assume "tail_lang rest v'"
      then have n: "CHR 0x0A \<notin> set v'" by (auto simp: tail_lang_def)
      obtain u where "v' = u @ ?t" using suffix [OF \<open>tail_lang rest v'\<close>] by blast
      then show False using True n by (metis Un_iff set_append)
    qed
    then show ?thesis using False True by (simp add: group1_def Let_def)
  next
    case nonl: False
    have g: "group1 rest = Some ?t" using False nonl by (simp add: group1_def Let_def)
    have t: "tail_lang rest ?t"
      unfolding tail_lang_def using dec sp False nonl by blast
    have m: "length ?t \<le> length v'" if "tail_lang rest v'" for v'
      using suffix [OF that] by auto
    have u: "v = ?t"
      if a1: "tail_lang rest v" and a2: "\<forall>v'. tail_lang rest v' \<longrightarrow> length v \<le> length v'"
    proof -
      obtain u where "v = u @ ?t" using suffix [OF a1] by blast
      moreover have "length v \<le> length ?t" using a2 t by blast
      ultimately show ?thesis by simp
    qed
    show ?thesis using g t m u by auto
  qed
next
  case True
  then have allsp: "list_all isSpace rest"
    by (metis dropWhile_eq_Nil_conv list_all_iff)
  have shape: "list_all isSpace v' \<and> v' \<noteq> [] \<and> rest \<noteq> [] \<and> last v' = last rest \<and> CHR 0x0A \<notin> set v'"
    if "tail_lang rest v'" for v'
  proof -
    from that obtain w where "rest = w @ v'" "v' \<noteq> []" "CHR 0x0A \<notin> set v'"
      by (auto simp: tail_lang_def)
    then show ?thesis using allsp by auto
  qed
  show ?thesis
  proof (cases "rest \<noteq> [] \<and> last rest \<noteq> CHR 0x0A")
    case False
    have "\<not> tail_lang rest v'" for v'
    proof
      assume a: "tail_lang rest v'"
      have "last v' \<in> set v'" using shape [OF a] last_in_set by blast
      then show False using shape [OF a] False by metis
    qed
    then show ?thesis using True False by (auto simp: group1_def Let_def)
  next
    case ok: True
    have g: "group1 rest = Some [last rest]" using True ok by (simp add: group1_def Let_def)
    have "rest = butlast rest @ [last rest]" using ok by simp
    moreover have "list_all isSpace (butlast rest)"
      using allsp by (metis in_set_butlastD list_all_iff)
    ultimately have t: "tail_lang rest [last rest]"
      unfolding tail_lang_def using ok by (metis empty_iff empty_set not_Cons_self2 set_ConsD)
    have m: "length [last rest] \<le> length v'" if "tail_lang rest v'" for v'
      using shape [OF that] by (cases v') auto
    have u: "v = [last rest]"
      if a1: "tail_lang rest v" and a2: "\<forall>v'. tail_lang rest v' \<longrightarrow> length v \<le> length v'"
    proof -
      have "length v \<le> 1" using a2 t by fastforce
      moreover have "v \<noteq> []" "last v = last rest" using shape [OF a1] by auto
      ultimately show ?thesis by (cases v) auto
    qed
    show ?thesis using g t m u by auto
  qed
qed


lemma takeWhile_isSpace_all: "list_all isSpace (takeWhile isSpace r)"
  by (simp add: list_all_iff) (metis set_takeWhileD)

lemma mixinLogRe_prefix_iff:
  "mixinLogRe_prefix bs = Some r3 \<longleftrightarrow>
     (\<exists>s1 w1 s2 w2 s3.
        bs = ''['' @ s1 @ '']'' @ w1 @ ''['' @ s2 @ '']'' @ w2 @ ''[mixin/'' @ s3 @ '']:'' @ r3
        \<and> CHR '']'' \<notin> set s1 \<and> CHR '']'' \<notin> set s2 \<and> CHR '']'' \<notin> set s3
        \<and> list_all isSpace w1 \<and> list_all isSpace w2)"
  (is "?L \<longleftrightarrow> ?R")
proof
  assume ?L
  then obtain r1 r2 where
    a: "seg ''['' '']'' bs = Some r1"
    and b: "seg ''['' '']'' (dropWhile isSpace r1) = Some r2"
    and c: "seg ''[mixin/'' '']:'' (dropWhile isSpace r2) = Some r3"
    by (auto simp: mixinLogRe_prefix_def split: option.splits)
  from a obtain s1 where 1: "bs = ''['' @ s1 @ '']'' @ r1" "CHR '']'' \<notin> set s1"
    using seg_iff [of "'']''" "''[''" bs r1] by auto
  from b obtain s2 where 2: "dropWhile isSpace r1 = ''['' @ s2 @ '']'' @ r2" "CHR '']'' \<notin> set s2"
    using seg_iff [of "'']''" "''[''" "dropWhile isSpace r1" r2] by auto
  from c obtain s3 where 3: "dropWhile isSpace r2 = ''[mixin/'' @ s3 @ '']:'' @ r3" "CHR '']'' \<notin> set s3"
    using seg_iff [of "'']:''" "''[mixin/''" "dropWhile isSpace r2" r3] by auto
  have r1: "r1 = takeWhile isSpace r1 @ ''['' @ s2 @ '']'' @ r2"
    using 2(1) by (metis takeWhile_dropWhile_id)
  have r2: "r2 = takeWhile isSpace r2 @ ''[mixin/'' @ s3 @ '']:'' @ r3"
    using 3(1) by (metis takeWhile_dropWhile_id)
  have "bs = ''['' @ s1 @ '']'' @ takeWhile isSpace r1 @ ''['' @ s2 @ '']'' @ takeWhile isSpace r2
                @ ''[mixin/'' @ s3 @ '']:'' @ r3"
    using 1(1) r1 r2 by metis
  then show ?R
    using 1(2) 2(2) 3(2) takeWhile_isSpace_all [of r1] takeWhile_isSpace_all [of r2] by blast
next
  assume ?R
  then obtain s1 w1 s2 w2 s3 where
    bs: "bs = ''['' @ s1 @ '']'' @ w1 @ ''['' @ s2 @ '']'' @ w2 @ ''[mixin/'' @ s3 @ '']:'' @ r3"
    and n: "CHR '']'' \<notin> set s1" "CHR '']'' \<notin> set s2" "CHR '']'' \<notin> set s3"
    and w: "list_all isSpace w1" "list_all isSpace w2"
    by blast
  let ?r2 = "w2 @ ''[mixin/'' @ s3 @ '']:'' @ r3"
  let ?r1 = "w1 @ ''['' @ s2 @ '']'' @ ?r2"
  have a: "seg ''['' '']'' bs = Some ?r1"
    using seg_iff [of "'']''" "''[''" bs ?r1] bs n(1) by auto
  have d1: "dropWhile isSpace ?r1 = ''['' @ s2 @ '']'' @ ?r2"
    using dropWhile_isSpace_append [OF w(1), of "''['' @ s2 @ '']'' @ ?r2"]
    by (simp add: isSpace_def)
  have b: "seg ''['' '']'' (dropWhile isSpace ?r1) = Some ?r2"
    using seg_iff [of "'']''" "''[''" "''['' @ s2 @ '']'' @ ?r2" ?r2] n(2) d1 by auto
  have d2: "dropWhile isSpace ?r2 = ''[mixin/'' @ s3 @ '']:'' @ r3"
    using dropWhile_isSpace_append [OF w(2), of "''[mixin/'' @ s3 @ '']:'' @ r3"]
    by (simp add: isSpace_def)
  have c: "seg ''[mixin/'' '']:'' (dropWhile isSpace ?r2) = Some r3"
    using seg_iff [of "'']:''" "''[mixin/''" "''[mixin/'' @ s3 @ '']:'' @ r3" r3] n(3) d2 by auto
  show ?L using a b c by (simp add: mixinLogRe_prefix_def)
qed

lemma mixinLogRe_lang_prefix:
  "mixinLogRe_lang bs v \<longleftrightarrow> (\<exists>r3. mixinLogRe_prefix bs = Some r3 \<and> tail_lang r3 v)"
proof
  assume "mixinLogRe_lang bs v"
  then obtain s1 w1 s2 w2 s3 w3 where
    bs: "bs = ''['' @ s1 @ '']'' @ w1 @ ''['' @ s2 @ '']'' @ w2 @ ''[mixin/'' @ s3 @ '']:'' @ w3 @ v"
    and n: "CHR '']'' \<notin> set s1" "CHR '']'' \<notin> set s2" "CHR '']'' \<notin> set s3"
    and w: "list_all isSpace w1" "list_all isSpace w2" "list_all isSpace w3"
    and v: "v \<noteq> []" "CHR 0x0A \<notin> set v"
    unfolding mixinLogRe_lang_def by blast
  have "mixinLogRe_prefix bs = Some (w3 @ v)"
    unfolding mixinLogRe_prefix_iff using bs n w(1,2) by blast
  moreover have "tail_lang (w3 @ v) v" unfolding tail_lang_def using w(3) v by blast
  ultimately show "\<exists>r3. mixinLogRe_prefix bs = Some r3 \<and> tail_lang r3 v" by blast
next
  assume "\<exists>r3. mixinLogRe_prefix bs = Some r3 \<and> tail_lang r3 v"
  then obtain r3 where p: "mixinLogRe_prefix bs = Some r3" and t: "tail_lang r3 v" by blast
  from t obtain w3 where r3: "r3 = w3 @ v" and w3: "list_all isSpace w3"
    and v: "v \<noteq> []" "CHR 0x0A \<notin> set v"
    unfolding tail_lang_def by blast
  from p obtain s1 w1 s2 w2 s3 where
    "bs = ''['' @ s1 @ '']'' @ w1 @ ''['' @ s2 @ '']'' @ w2 @ ''[mixin/'' @ s3 @ '']:'' @ r3"
    "CHR '']'' \<notin> set s1" "CHR '']'' \<notin> set s2" "CHR '']'' \<notin> set s3"
    "list_all isSpace w1" "list_all isSpace w2"
    unfolding mixinLogRe_prefix_iff by blast
  then show "mixinLogRe_lang bs v"
    unfolding mixinLogRe_lang_def using r3 w3 v by blast
qed

lemma FindSubmatch_Some:
  "mixinLogRe_FindSubmatch bs = Some v \<longleftrightarrow>
     mixinLogRe_lang bs v \<and> (\<forall>v'. mixinLogRe_lang bs v' \<longrightarrow> length v \<le> length v')"
proof (cases "mixinLogRe_prefix bs")
  case None
  then show ?thesis by (simp add: mixinLogRe_FindSubmatch_def mixinLogRe_lang_prefix)
next
  case (Some r3)
  then show ?thesis
    by (simp add: mixinLogRe_FindSubmatch_def mixinLogRe_lang_prefix group1_Some)
qed

lemma FindSubmatch_None:
  "mixinLogRe_FindSubmatch bs = None \<longleftrightarrow> (\<forall>v. \<not> mixinLogRe_lang bs v)"
proof -
  have "(\<exists>v. group1 r = Some v) \<longleftrightarrow> (\<exists>v. tail_lang r v)" for r
  proof
    assume "\<exists>v. group1 r = Some v" then show "\<exists>v. tail_lang r v" using group1_Some by blast
  next
    assume "\<exists>v. tail_lang r v"
    then obtain v where "tail_lang r v" by blast
    then obtain v0 where "tail_lang r v0" "\<forall>y. tail_lang r y \<longrightarrow> length v0 \<le> length y"
      using ex_has_least_nat [of "tail_lang r" v length] by blast
    then show "\<exists>v. group1 r = Some v" using group1_Some by blast
  qed
  then have g: "group1 r = None \<longleftrightarrow> (\<forall>v. \<not> tail_lang r v)" for r
    by (metis option.distinct(1) option.exhaust)
  show ?thesis
    by (cases "mixinLogRe_prefix bs")
       (simp_all add: mixinLogRe_FindSubmatch_def mixinLogRe_lang_prefix g)
qed


lemma Push_cap: "cap (Push x rb) = cap rb"
  by (simp add: Push_def)

lemma Push_items:
  assumes "length (items rb) \<le> cap rb"
  shows "items (Push x rb) = drop (Suc (length (items rb)) - cap rb) (items rb @ [x])"
  using assms by (auto simp: Push_def)

lemma fold_Push_cap: "cap (fold Push xs rb) = cap rb"
  by (induction xs arbitrary: rb) (simp_all add: Push_cap)

lemma fold_Push_items:
  assumes "length (items rb) \<le> cap rb"
  shows "items (fold Push xs rb) = drop (length (items rb) + length xs - cap rb) (items rb @ xs)"
  using assms
proof (induction xs arbitrary: rb)
  case Nil
  then show ?case by simp
next
  case (Cons x xs)
  let ?rb = "Push x rb"
  have i: "items ?rb = drop (Suc (length (items rb)) - cap rb) (items rb @ [x])"
    using Push_items [OF Cons.prems] .
  have l: "length (items ?rb) \<le> cap ?rb" using i Cons.prems by (simp add: Push_cap)
  have "items (fold Push xs ?rb)
          = drop (length (items ?rb) + length xs - cap ?rb) (items ?rb @ xs)"
    using Cons.IH [OF l] .
  also have "\<dots> = drop (length (items rb) + length (x # xs) - cap rb) (items rb @ x # xs)"
  proof (cases "length (items rb) < cap rb")
    case True
    then show ?thesis using i by (simp add: Push_cap)
  next
    case False
    then have e: "length (items rb) = cap rb" using Cons.prems by simp
    then show ?thesis using i by (cases "items rb") (simp_all add: Push_cap)
  qed
  finally show ?case by simp
qed

lemma fold_record:
  "recentMixinLogs (fold logRecorder_record ls a)
     = fold Push (List.map_filter mixinLogRe_FindSubmatch ls) (recentMixinLogs a)"
  by (induction ls arbitrary: a)
     (auto simp: logRecorder_record_def List.map_filter_simps split: option.splits)

lemma Write_loop_lines:
  assumes "\<forall>l \<in> set ls. CHR 0x0A \<notin> set l" and "CHR 0x0A \<notin> set rest"
  shows "Write_loop (concat (map (\<lambda>l. l @ [CHR 0x0A]) ls) @ rest) a
           = (rest, fold logRecorder_record ls a)"
  using assms
proof (induction ls arbitrary: a)
  case Nil
  then show ?case by simp
next
  case (Cons l ls)
  have n: "CHR 0x0A \<notin> set l" using Cons.prems by simp
  let ?t = "concat (map (\<lambda>l. l @ [CHR 0x0A]) ls) @ rest"
  have t: "takeWhile (\<lambda>c. c \<noteq> CHR 0x0A) (l @ CHR 0x0A # ?t) = l"
    using n by (auto simp: takeWhile_tail)
  have d: "dropWhile (\<lambda>c. c \<noteq> CHR 0x0A) (l @ CHR 0x0A # ?t) = CHR 0x0A # ?t"
    using n by (auto simp: dropWhile_append3)
  have "Write_loop (l @ CHR 0x0A # ?t) a = Write_loop ?t (logRecorder_record l a)"
    by (subst Write_loop.simps) (simp add: t d)
  then show ?case using Cons by simp
qed

text \<open>
  C9. A line is pushed exactly when it matches the pattern of three bracketed segments whose
  third starts with \<open>mixin/\<close>; what is pushed is the payload, the text after the colon and
  the whitespace that follows it; a line that does not match changes nothing. The buffer
  holds 64 entries: after a session has recorded the lines \<open>ls\<close>, it holds the last 64
  payloads of the matching lines, in order.
\<close>

theorem logRecorder_record_ring:
  assumes "cap (recentMixinLogs a) = 64"
  shows "((\<forall>v. \<not> mixinLogRe_lang line v) \<longrightarrow> logRecorder_record line a = a)
       \<and> (mixinLogRe_lang line v \<and> (\<forall>v'. mixinLogRe_lang line v' \<longrightarrow> length v \<le> length v')
            \<longrightarrow> logRecorder_record line a = a\<lparr>recentMixinLogs := Push v (recentMixinLogs a)\<rparr>)
       \<and> items (recentMixinLogs (fold logRecorder_record ls (snd (newLogRecorder a))))
            = drop (length (List.map_filter mixinLogRe_FindSubmatch ls) - 64)
                (List.map_filter mixinLogRe_FindSubmatch ls)"
proof -
  have 1: "(\<forall>v. \<not> mixinLogRe_lang line v) \<longrightarrow> logRecorder_record line a = a"
    using FindSubmatch_None [of line] by (auto simp: logRecorder_record_def)
  have 2: "mixinLogRe_lang line v \<and> (\<forall>v'. mixinLogRe_lang line v' \<longrightarrow> length v \<le> length v')
            \<longrightarrow> logRecorder_record line a = a\<lparr>recentMixinLogs := Push v (recentMixinLogs a)\<rparr>"
    using FindSubmatch_Some [of line v] by (auto simp: logRecorder_record_def)
  let ?a = "snd (newLogRecorder a)"
  have c: "cap (recentMixinLogs ?a) = 64" "items (recentMixinLogs ?a) = []"
    using assms by (simp_all add: newLogRecorder_def Clear_def)
  have 3: "items (recentMixinLogs (fold logRecorder_record ls ?a))
            = drop (length (List.map_filter mixinLogRe_FindSubmatch ls) - 64)
                (List.map_filter mixinLogRe_FindSubmatch ls)"
    using fold_Push_items [of "recentMixinLogs ?a" "List.map_filter mixinLogRe_FindSubmatch ls"] c
    by (simp add: fold_record)
  show ?thesis using 1 2 3 by blast
qed

theorem logRecorder_record_ring_witness:
  "logRecorder_record ''no tag here'' (NewAnalyzer :: char Analyzer) = NewAnalyzer
   \<and> items (recentMixinLogs (fold logRecorder_record (''no tag here'' # map exLine [0..<70])
                (snd (newLogRecorder (NewAnalyzer :: char Analyzer)))))
       = map (\<lambda>i. ''line '' @ [char_of (48 + i)]) [6..<70]
   \<and> length (items (recentMixinLogs (fold logRecorder_record
                (''no tag here'' # map exLine [0..<70])
                (snd (newLogRecorder (NewAnalyzer :: char Analyzer)))))) = 64"
proof -
  have c: "cap (recentMixinLogs (NewAnalyzer :: char Analyzer)) = 64"
    by (simp add: NewAnalyzer_def NewRingBuffer_def)
  have n: "\<forall>v. \<not> mixinLogRe_lang ''no tag here'' v"
    using FindSubmatch_None [of "''no tag here''"]
    by (simp add: mixinLogRe_FindSubmatch_def mixinLogRe_prefix_def seg_def)
  have m: "List.map_filter mixinLogRe_FindSubmatch (''no tag here'' # map exLine [0..<70])
             = map (\<lambda>i. ''line '' @ [char_of (48 + i)]) [0..<70]"
    by code_simp
  have d: "drop 6 (map (\<lambda>i. ''line '' @ [char_of (48 + i)]) [0..<70])
             = map (\<lambda>i. ''line '' @ [char_of (48 + i :: nat)]) [6..<70]"
    by (simp add: drop_map)
  show ?thesis
    using logRecorder_record_ring [OF c, of "''no tag here''" "[]"
            "''no tag here'' # map exLine [0..<70]"] n m d
    by simp
qed

section \<open>Properties of concurrent callers\<close>

text \<open>One caller running its three steps alone is \<open>getErrors\<close>.\<close>

lemma getErrors_run_single:
  "getErrors_run env [0, 0, 0] (getErrors_init a w 1)
     = (case getErrors env a w of
          (errs, a', w') \<Rightarrow>
            \<lparr>analyzer = a', world = w', callers = [PReturned errs],
              fetches = (if fst (needUpdate env a w) \<and> fst (needUpdate env a (snd (needUpdate env a w))) then 1 else 0)\<rparr>)"
  by (auto simp: getErrors_run_def getErrors_init_def getErrors_step_def getErrors_def
        split: prod.splits bool.splits)

lemma step_inv:
  assumes ok: "\<forall>w. snd (fst (ForEachErrors env w)) = None"
    and clk: "\<forall>w. T0 < fst (timeNow env w) \<and> fst (timeNow env w) \<le> T0 + Hour"
    and T0: "0 \<le> T0"
    and inv: "fresh_inv T0 s"
  shows "fresh_inv T0 (getErrors_step env i s)"
proof (cases "i < length (callers s)")
  case False
  then show ?thesis using inv by (simp add: getErrors_step_def)
next
  case True
  show ?thesis
  proof (cases "callers s ! i")
    case PStart
    then show ?thesis using inv True
      by (auto simp: getErrors_step_def fresh_inv_def split: prod.splits)
  next
    case (PChecked b)
    show ?thesis
    proof (cases b)
      case False
      then show ?thesis using inv True PChecked
        by (auto simp: getErrors_step_def fresh_inv_def)
    next
      case b: True
      obtain b2 w1 where n: "needUpdate env (analyzer s) (world s) = (b2, w1)" by (metis prod.exhaust)
      show ?thesis
      proof (cases b2)
        case False
        then show ?thesis using inv True PChecked b n
          by (auto simp: getErrors_step_def fresh_inv_def)
      next
        case b2: True
        have z: "fetches s = 0"
        proof (rule ccontr)
          assume "fetches s \<noteq> 0"
          then have r: "T0 < lastUpdateErr (analyzer s)" "lastUpdateErr (analyzer s) \<le> T0 + Hour"
            using inv by (auto simp: fresh_inv_def)
          then have nz: "\<not> IsZero (lastUpdateErr (analyzer s))" using T0 by (simp add: IsZero_def)
          obtain now w' where t: "timeNow env (world s) = (now, w')" by (metis prod.exhaust)
          have "now \<le> T0 + Hour" using clk t by (metis fst_conv)
          then have "\<not> After now (lastUpdateErr (analyzer s) + Hour)" using r by (simp add: After_def)
          then show False using n b2 nz t by (simp add: needUpdate_def)
        qed
        obtain errs w2 where f: "ForEachErrors env w1 = ((errs, None), w2)"
          using ok by (metis prod.exhaust fst_conv snd_conv)
        obtain now w3 where t: "timeNow env w2 = (now, w3)" by (metis prod.exhaust)
        have r: "T0 < now" "now \<le> T0 + Hour" using clk t by (metis fst_conv)+
        show ?thesis using True PChecked b n b2 z f t r
          by (simp add: getErrors_step_def fresh_inv_def updateErrorsLocked_def)
      qed
    qed
  next
    case PUnlocked
    then show ?thesis using inv True by (auto simp: getErrors_step_def fresh_inv_def)
  next
    case (PReturned x)
    then show ?thesis using inv True by (auto simp: getErrors_step_def fresh_inv_def)
  qed
qed

lemma run_inv:
  assumes ok: "\<forall>w. snd (fst (ForEachErrors env w)) = None"
    and clk: "\<forall>w. T0 < fst (timeNow env w) \<and> fst (timeNow env w) \<le> T0 + Hour"
    and T0: "0 \<le> T0"
    and inv: "fresh_inv T0 s"
  shows "fresh_inv T0 (getErrors_run env sched s)"
  using inv unfolding getErrors_run_def
proof (induction sched arbitrary: s)
  case Nil
  then show ?case by simp
next
  case (Cons i sched)
  show ?case using Cons.IH [OF step_inv [OF ok clk T0 Cons.prems, of i]] by simp
qed

text \<open>
  C7, as amended. Any number of callers of \<open>getErrors\<close>, interleaved in any order, enumerate
  the repository at most once, provided the enumeration succeeds and every reading of the
  clock during the run lies in one window of an hour that starts after the zero time.
\<close>

theorem getErrors_single_refresh:
  assumes ok: "\<forall>w. snd (fst (ForEachErrors env w)) = None"
    and clk: "\<forall>w. T0 < fst (timeNow env w) \<and> fst (timeNow env w) \<le> T0 + Hour"
    and T0: "0 \<le> T0"
  shows "fetches (getErrors_run env sched (getErrors_init a w n)) \<le> 1"
proof -
  have "fresh_inv T0 (getErrors_init a w n)" by (simp add: fresh_inv_def getErrors_init_def)
  then have "fresh_inv T0 (getErrors_run env sched (getErrors_init a w n))"
    using run_inv [OF ok clk T0] by blast
  then show ?thesis by (auto simp: fresh_inv_def)
qed

theorem getErrors_single_refresh_witness:
  "fetches (getErrors_run (exInstantEnv (exDescs, None)) [0, 1, 0, 1, 0, 1]
              (getErrors_init (NewAnalyzer :: char Analyzer) (0, 0) 2)) \<le> 1
   \<and> callers (getErrors_run (exInstantEnv (exDescs, None)) [0, 1, 0, 1, 0, 1]
              (getErrors_init (NewAnalyzer :: char Analyzer) (0, 0) 2))
       = [PReturned exDescs, PReturned exDescs]"
proof -
  have ok: "\<forall>w. snd (fst (ForEachErrors (exInstantEnv (exDescs, None)) w)) = None"
    by (simp add: exInstantEnv_def exEnv_def split: prod.splits)
  have clk: "\<forall>w. 999 < fst (timeNow (exInstantEnv (exDescs, None)) w)
                 \<and> fst (timeNow (exInstantEnv (exDescs, None)) w) \<le> 999 + Hour"
    by (simp add: exInstantEnv_def exEnv_def Hour_def split: prod.splits)
  have c: "callers (getErrors_run (exInstantEnv (exDescs, None)) [0, 1, 0, 1, 0, 1]
              (getErrors_init (NewAnalyzer :: char Analyzer) (0, 0) 2))
             = [PReturned exDescs, PReturned exDescs]"
    by (simp add: getErrors_run_def getErrors_init_def getErrors_step_def needUpdate_def
          updateErrorsLocked_def exInstantEnv_def exEnv_def NewAnalyzer_def IsZero_def
          After_def Hour_def numeral_2_eq_2)
  show ?thesis
    using getErrors_single_refresh [OF ok clk, of "[0, 1, 0, 1, 0, 1]"
            "NewAnalyzer :: char Analyzer" "(0, 0)" 2] c
    by simp
qed

text \<open>
  C7 as stated fails when the repository reports an error: the failed refresh leaves the
  time of the last refresh at zero, so the second of two concurrent callers finds the cache
  stale under the write lock as well and enumerates the repository again.
\<close>

theorem getErrors_single_refresh_counterexample:
  "IsZero (lastUpdateErr (NewAnalyzer :: char Analyzer))
   \<and> fetches (getErrors_run (exEnv ([], Some (GoError ''fetch failed'')) (8 / 10) True)
                [0, 1, 0, 1, 0, 1] (getErrors_init (NewAnalyzer :: char Analyzer) (0, 0) 2)) = 2
   \<and> callers (getErrors_run (exEnv ([], Some (GoError ''fetch failed'')) (8 / 10) True)
                [0, 1, 0, 1, 0, 1] (getErrors_init (NewAnalyzer :: char Analyzer) (0, 0) 2))
       = [PReturned [], PReturned []]"
  by (simp add: getErrors_run_def getErrors_init_def getErrors_step_def needUpdate_def
        updateErrorsLocked_def exEnv_def NewAnalyzer_def IsZero_def numeral_2_eq_2)

section \<open>Properties of the stream pipeline\<close>

text \<open>The result channel is closed when the main goroutine returns, and only then.\<close>

lemma cancel_fields:
  "pmain (cancel err p) = pmain p" "closes (cancel err p) = closes p"
  by (simp_all add: cancel_def split: option.splits)

lemma DoLogStream_step_closes:
  assumes "DoLogStream_step env ev p = Some p'"
    and "closes p = (if pmain p = MReturned then 1 else 0)"
  shows "closes p' = (if pmain p' = MReturned then 1 else 0)"
proof (cases ev)
  case MainRecv
  then show ?thesis using assms
    by (auto simp: DoLogStream_step_def split: if_splits list.splits option.splits)
next
  case MainErr
  then show ?thesis using assms
    by (auto simp: DoLogStream_step_def main_return_def cancel_fields split: if_splits option.splits)
next
  case MainCtxDone
  then show ?thesis using assms
    by (auto simp: DoLogStream_step_def main_return_def split: if_splits)
next
  case MainWaited
  then show ?thesis using assms
    by (auto simp: DoLogStream_step_def main_return_def split: if_splits)
next
  case (TaskScore i)
  then show ?thesis using assms
    by (auto simp: DoLogStream_step_def cancel_fields
        split: if_splits Task.splits option.splits prod.splits)
next
  case (TaskSend i)
  then show ?thesis using assms
    by (auto simp: DoLogStream_step_def split: if_splits Task.splits)
next
  case (TaskCtxDone i)
  then show ?thesis using assms
    by (auto simp: DoLogStream_step_def split: if_splits Task.splits)
next
  case Consume
  then show ?thesis using assms
    by (auto simp: DoLogStream_step_def split: list.splits)
next
  case (CallerCancel err)
  then show ?thesis using assms
    by (auto simp: DoLogStream_step_def cancel_fields)
qed

lemma DoLogStream_run_closes:
  assumes "DoLogStream_run env evs p = Some p'"
    and "closes p = (if pmain p = MReturned then 1 else 0)"
  shows "closes p' = (if pmain p' = MReturned then 1 else 0)"
  using assms
proof (induction evs arbitrary: p)
  case Nil
  then show ?case by simp
next
  case (Cons ev evs)
  then obtain q where q: "DoLogStream_step env ev p = Some q" "DoLogStream_run env evs q = Some p'"
    by (auto split: option.splits)
  show ?case using Cons.IH [OF q(2) DoLogStream_step_closes [OF q(1) Cons.prems(2)]] .
qed

text \<open>
  A session that is not cancelled: one top-level error with one cause. The task sends the
  result of the outer error, then that of its cause; the main goroutine waits for the task
  before it closes the channel, and the consumer receives the two results in that order.
\<close>

lemma DoLogStream_two_level_chain:
  "map_option (\<lambda>p. (map Error_of (received p), closes p, cause p, sendOnClosed p))
      (DoLogStream_run exPipeEnv
         [MainRecv, MainRecv, TaskScore 0, TaskSend 0, TaskScore 0, TaskSend 0, TaskScore 0,
          MainWaited, Consume, Consume]
         (DoLogStream_init (NewAnalyzer :: char Analyzer) (0, 0) [Some exError, None] None))
     = Some ([exError, exCause], 1, None, False)"
proof -
  obtain m1 a1 w1 where
    d1: "DoError exPipeEnv (snd (newLogRecorder (NewAnalyzer :: char Analyzer))) (0, 0) exError
          = ((m1, None), a1, w1)"
    using DoError_err_None [of exPipeEnv "snd (newLogRecorder (NewAnalyzer :: char Analyzer))"
            "(0, 0)" exError]
    by (metis prod.collapse)
  obtain m2 a2 w2 where d2: "DoError exPipeEnv a1 w1 exCause = ((m2, None), a2, w2)"
    using DoError_err_None [of exPipeEnv a1 w1 exCause] by (metis prod.collapse)
  have c: "CausedBy exError = Some exCause" "CausedBy exCause = None"
    by (simp_all add: exError_def exCause_def)
  show ?thesis
    by (simp add: DoLogStream_init_def DoLogStream_step_def main_return_def d1 d2 c)
qed


text \<open>
  C4, on the code: the tokenizer delivers one error and then reports its terminal error.
  The main goroutine starts the task, takes the error, cancels and returns: the channel is
  closed while the task is still at the head of its loop, neither ended nor at a
  \<open>select\<close> where it could see the cancellation. The task then scores its error and its
  \<open>select\<close> takes the send on the closed channel.
\<close>

theorem DoLogStream_closes_before_task_ends:
  "map_option (\<lambda>p. (closes p, tasks p, cause p))
      (DoLogStream_run exPipeEnv [MainRecv, MainErr] exPipe)
     = Some (1, [TLoop (Some exCause)], Some (GoError ''tokenize''))
   \<and> map_option (\<lambda>p. (closes p, tasks p, sendOnClosed p))
      (DoLogStream_run exPipeEnv [MainRecv, MainErr, TaskScore 0, TaskSend 0] exPipe)
     = Some (1, [TEnd], True)"
proof -
  obtain m a1 w1 where
    d: "DoError exPipeEnv (snd (newLogRecorder (NewAnalyzer :: char Analyzer))) (0, 0) exCause
          = ((m, None), a1, w1)"
    using DoError_err_None [of exPipeEnv "snd (newLogRecorder (NewAnalyzer :: char Analyzer))"
            "(0, 0)" exCause]
    by (metis prod.collapse)
  show ?thesis
    by (simp add: exPipe_def DoLogStream_init_def DoLogStream_step_def main_return_def
          cancel_def d)
qed


end
